theory Spec2Isabelle
  imports Main "HOL-Library.Sublist"
begin

section \<open>Role-based cooperation workflow (src/main.ts)\<close>

text \<open>
  The program sequences four stages driven by a language model: plan, assign roles,
  execute each task, report. Everything the language model, the search agent and the
  query decomposer answer is outside the program; the model takes those answers as the
  fields of an environment record, so that every theorem holds for whatever they answer.
\<close>

subsection \<open>Data model (main.ts lines 9-38)\<close>

text \<open>
  \<open>RoleSchema\<close>: three fields. The field \<open>description\<close> of a role is named
  \<open>role_description\<close> here, since \<open>TaskSchema\<close> has a field of the same name.
  \<open>keySkills\<close> is \<open>z.array(z.string())\<close>: a list of any length.
\<close>

record Role =
  name :: string
  role_description :: string
  keySkills :: "string list"

text \<open>\<open>TaskSchema\<close>: \<open>role\<close> is \<open>RoleSchema.optional()\<close>, so it may be undefined.\<close>

record Task =
  description :: string
  role :: "Role option"

datatype TasksWithRoles = TasksWithRoles (tasks_of: "Task list")

text \<open>
  \<open>AgentStateSchema\<close>. \<open>currentTaskIndex\<close> is a JavaScript number that starts at 0 and
  is only ever incremented by one below an array length, so a natural number models it.
\<close>

record AgentState =
  query :: string
  tasks :: "Task list"
  currentTaskIndex :: nat
  results :: "string list"
  finalReport :: string

text \<open>
  \<open>Partial<AgentState>\<close>, the return type of every node: each field present or absent.
\<close>

record AgentState_update =
  upd_query :: "string option"
  upd_tasks :: "Task list option"
  upd_currentTaskIndex :: "nat option"
  upd_results :: "string list option"
  upd_finalReport :: "string option"

definition no_update :: AgentState_update where
  "no_update = \<lparr>upd_query = None, upd_tasks = None, upd_currentTaskIndex = None,
     upd_results = None, upd_finalReport = None\<rparr>"

text \<open>A chat message: who speaks (\<open>role\<close> in the source's message objects) and what.\<close>

datatype message = Message (speaker: string) (content: string)

text \<open>
  What a run can throw. \<open>TypeError p\<close> is JavaScript's "Cannot read properties of
  undefined (reading 'p')"; \<open>External m\<close> is any failure of an external collaborator
  (language model, output parser, search agent, decomposer), which the program never
  catches; \<open>GraphRecursionError\<close> is the abort of the graph runtime at its step cap.
\<close>

datatype error = TypeError string | External string | GraphRecursionError

subsection \<open>The environment: external collaborators and fixed prompt texts\<close>

text \<open>
  The fixed texts of the prompts are Japanese string literals. They are kept as
  parameters, one per maximal run of literal text between two interpolated values:
  \<^item> \<open>roleAssigner_system\<close>: the system message of \<open>RoleAssigner.run\<close> (line 63);
  \<^item> \<open>roleAssigner_before_tasks\<close>, \<open>roleAssigner_after_tasks\<close>: the human template of
    lines 66-72 before and after \<open>{tasks}\<close>;
  \<^item> \<open>executor_before_name\<close>, \<open>executor_before_description\<close>, \<open>executor_before_skills\<close>,
    \<open>executor_after_skills\<close>: the system content of lines 102-105 around the three
    interpolations;
  \<^item> \<open>executor_before_task\<close>: the human content of line 109 before the task description;
  \<^item> \<open>reporter_system\<close>: the system message of \<open>Reporter.run\<close> (line 128);
  \<^item> \<open>reporter_before_query\<close>, \<open>reporter_before_results\<close>: the human template of lines
    131-140 before \<open>{query}\<close> and between \<open>{query}\<close> and \<open>{results}\<close>.
\<close>

record prompt_texts =
  roleAssigner_system :: string
  roleAssigner_before_tasks :: string
  roleAssigner_after_tasks :: string
  executor_before_name :: string
  executor_before_description :: string
  executor_before_skills :: string
  executor_after_skills :: string
  executor_before_task :: string
  reporter_system :: string
  reporter_before_query :: string
  reporter_before_results :: string

text \<open>
  The external calls. Each returns \<open>Inl m\<close> when it throws.
  \<^item> \<open>queryDecomposer_run\<close>: \<open>QueryDecomposer.run(query)\<close> followed by \<open>.values\<close>
    (the class is used at line 48 and defined nowhere in the file);
  \<^item> \<open>roleAssigner_chain\<close>: the language model piped into
    \<open>StructuredOutputParser.fromZodSchema(TasksWithRolesSchema)\<close> (line 76): any value of
    the schema's type, or a failure;
  \<^item> \<open>baseAgent_invoke\<close>: the tool-using agent of line 93, returning its message list.
    Its first argument is the number of supersteps the run has completed when the call
    is made: the agent need not answer the same prompt the same way twice;
  \<^item> \<open>reporter_chain\<close>: the language model piped into \<open>StringOutputParser\<close> (line 144).
\<close>

record env =
  texts :: prompt_texts
  queryDecomposer_run :: "string \<Rightarrow> string + string list"
  roleAssigner_chain :: "message list \<Rightarrow> string + TasksWithRoles"
  baseAgent_invoke :: "nat \<Rightarrow> message list \<Rightarrow> string + message list"
  reporter_chain :: "message list \<Rightarrow> string + string"

subsection \<open>JavaScript helpers\<close>

text \<open>\<open>Array.prototype.join\<close> on an array of strings.\<close>

fun join :: "string \<Rightarrow> string list \<Rightarrow> string" where
  "join sep [] = []"
| "join sep [x] = x"
| "join sep (x # y # ys) = x @ sep @ join sep (y # ys)"

text \<open>\<open>xs[i]\<close>: \<open>undefined\<close> (here \<open>None\<close>) when \<open>i\<close> is out of range.\<close>

definition at_index :: "'a list \<Rightarrow> nat \<Rightarrow> 'a option" where
  "at_index xs i = (if i < length xs then Some (xs ! i) else None)"

text \<open>The decimal text of a non-negative integer, as a template literal prints it.\<close>

fun string_of_nat :: "nat \<Rightarrow> string" where
  "string_of_nat n =
     (if n < 10 then [''0123456789'' ! n]
      else string_of_nat (n div 10) @ [''0123456789'' ! (n mod 10)])"

declare string_of_nat.simps [simp del]

text \<open>\<open>xs.map((x, i) => f(x, i))\<close>: the callback receives the element and its index.\<close>

definition map_indexed :: "('a \<Rightarrow> nat \<Rightarrow> 'b) \<Rightarrow> 'a list \<Rightarrow> 'b list" where
  "map_indexed f xs = map (\<lambda>(i, x). f x i) (enumerate 0 xs)"

subsection \<open>Planner (lines 40-51)\<close>

definition Planner_run :: "env \<Rightarrow> string \<Rightarrow> error + Task list" where
  "Planner_run e q =
     (case queryDecomposer_run e q of
        Inl m \<Rightarrow> Inl (External m)
      | Inr decomposedTasks \<Rightarrow>
          Inr (map (\<lambda>task. \<lparr>description = task, role = None\<rparr>) decomposedTasks))"

subsection \<open>RoleAssigner (lines 53-83)\<close>

definition RoleAssigner_prompt :: "prompt_texts \<Rightarrow> Task list \<Rightarrow> message list" where
  "RoleAssigner_prompt t ts =
     [Message ''system'' (roleAssigner_system t),
      Message ''human''
        (roleAssigner_before_tasks t @ join ''\<newline>'' (map description ts)
           @ roleAssigner_after_tasks t)]"

definition RoleAssigner_run :: "env \<Rightarrow> Task list \<Rightarrow> error + Task list" where
  "RoleAssigner_run e ts =
     (case roleAssigner_chain e (RoleAssigner_prompt (texts e) ts) of
        Inl m \<Rightarrow> Inl (External m)
      | Inr tasksWithRoles \<Rightarrow> Inr (tasks_of tasksWithRoles))"

subsection \<open>Executor (lines 85-116)\<close>

definition Executor_messages :: "prompt_texts \<Rightarrow> Role \<Rightarrow> Task \<Rightarrow> message list" where
  "Executor_messages t r task =
     [Message ''system''
        (executor_before_name t @ name r
           @ executor_before_description t @ role_description r
           @ executor_before_skills t @ join '', '' (keySkills r)
           @ executor_after_skills t),
      Message ''human'' (executor_before_task t @ description task)]"

text \<open>
  The argument is \<open>None\<close> when the caller passes \<open>undefined\<close>. The template literal of
  line 102 reads \<open>task.role!.name\<close> first: \<open>task.role\<close> throws on an undefined task,
  \<open>.name\<close> throws on an undefined role (the \<open>!\<close> is erased by the compiler). Line 114
  reads \<open>.content\<close> of the last message, which is undefined for an empty list.
\<close>

definition Executor_run :: "env \<Rightarrow> nat \<Rightarrow> Task option \<Rightarrow> error + string" where
  "Executor_run e now task =
     (case task of
        None \<Rightarrow> Inl (TypeError ''role'')
      | Some t \<Rightarrow>
          (case role t of
             None \<Rightarrow> Inl (TypeError ''name'')
           | Some r \<Rightarrow>
               (case baseAgent_invoke e now (Executor_messages (texts e) r t) of
                  Inl m \<Rightarrow> Inl (External m)
                | Inr messages \<Rightarrow>
                    (case at_index messages (length messages - 1) of
                       None \<Rightarrow> Inl (TypeError ''content'')
                     | Some m \<Rightarrow> Inr (content m)))))"

subsection \<open>Reporter (lines 118-150)\<close>

definition Reporter_results :: "string list \<Rightarrow> string" where
  "Reporter_results rs =
     join ''\<newline>\<newline>''
       (map_indexed (\<lambda>result i. ''Info '' @ string_of_nat (i + 1) @ '':\<newline>'' @ result) rs)"

definition Reporter_prompt :: "prompt_texts \<Rightarrow> string \<Rightarrow> string list \<Rightarrow> message list" where
  "Reporter_prompt t q rs =
     [Message ''system'' (reporter_system t),
      Message ''human''
        (reporter_before_query t @ q @ reporter_before_results t @ Reporter_results rs)]"

definition Reporter_run :: "env \<Rightarrow> string \<Rightarrow> string list \<Rightarrow> error + string" where
  "Reporter_run e q rs =
     (case reporter_chain e (Reporter_prompt (texts e) q rs) of
        Inl m \<Rightarrow> Inl (External m)
      | Inr report \<Rightarrow> Inr report)"

subsection \<open>The nodes of the workflow (lines 192-214)\<close>

definition planTasks :: "env \<Rightarrow> AgentState \<Rightarrow> error + AgentState_update" where
  "planTasks e state =
     (case Planner_run e (query state) of
        Inl err \<Rightarrow> Inl err
      | Inr ts \<Rightarrow> Inr (no_update\<lparr>upd_tasks := Some ts\<rparr>))"

definition assignRoles :: "env \<Rightarrow> AgentState \<Rightarrow> error + AgentState_update" where
  "assignRoles e state =
     (case RoleAssigner_run e (tasks state) of
        Inl err \<Rightarrow> Inl err
      | Inr tasksWithRoles \<Rightarrow> Inr (no_update\<lparr>upd_tasks := Some tasksWithRoles\<rparr>))"

definition executeTask :: "env \<Rightarrow> nat \<Rightarrow> AgentState \<Rightarrow> error + AgentState_update" where
  "executeTask e now state =
     (let currentTask = at_index (tasks state) (currentTaskIndex state) in
      case Executor_run e now currentTask of
        Inl err \<Rightarrow> Inl err
      | Inr result \<Rightarrow>
          Inr (no_update\<lparr>upd_results := Some [result],
                 upd_currentTaskIndex := Some (currentTaskIndex state + 1)\<rparr>))"

definition generateReport :: "env \<Rightarrow> AgentState \<Rightarrow> error + AgentState_update" where
  "generateReport e state =
     (case Reporter_run e (query state) (results state) of
        Inl err \<Rightarrow> Inl err
      | Inr report \<Rightarrow> Inr (no_update\<lparr>upd_finalReport := Some report\<rparr>))"

subsection \<open>The graph (lines 169-190)\<close>

text \<open>The four nodes registered by \<open>createGraph\<close>, and \<open>END\<close>.\<close>

datatype node = planner | roleAssigner | executor | reporter | END

text \<open>
  The function bound to each node. \<open>now\<close> is the number of supersteps completed, which
  only the agent call of the executor receives.
\<close>

fun node_action :: "env \<Rightarrow> nat \<Rightarrow> node \<Rightarrow> AgentState \<Rightarrow> error + AgentState_update" where
  "node_action e now planner state = planTasks e state"
| "node_action e now roleAssigner state = assignRoles e state"
| "node_action e now executor state = executeTask e now state"
| "node_action e now reporter state = generateReport e state"
| "node_action e now END state = Inr no_update"

text \<open>
  The edges: \<open>addEdge\<close> for planner, roleAssigner and reporter; the conditional edge of
  lines 181-185 for executor, evaluated on the state after the node's update.
\<close>

fun edge :: "node \<Rightarrow> AgentState \<Rightarrow> node" where
  "edge planner state = roleAssigner"
| "edge roleAssigner state = executor"
| "edge executor state =
     (if currentTaskIndex state < length (tasks state) then executor else reporter)"
| "edge reporter state = END"
| "edge END state = END"

subsection \<open>The graph runtime\<close>

text \<open>
  Modelled from the spec: the runtime behind \<open>StateGraph\<close>, \<open>compile\<close> and \<open>invoke\<close>
  is imported at line 5 and is not part of the source file. From the specification:
  a node's output is a partial update merged into the running state, fields the node
  does not return are left unchanged, each pass through the executor appends its result
  to \<open>results\<close>, and the other fields are replaced by the value returned.
\<close>

definition merge_update :: "AgentState \<Rightarrow> AgentState_update \<Rightarrow> AgentState" where
  "merge_update state u =
     \<lparr>query = (case upd_query u of None \<Rightarrow> query state | Some q \<Rightarrow> q),
      tasks = (case upd_tasks u of None \<Rightarrow> tasks state | Some ts \<Rightarrow> ts),
      currentTaskIndex =
        (case upd_currentTaskIndex u of None \<Rightarrow> currentTaskIndex state | Some i \<Rightarrow> i),
      results = (case upd_results u of None \<Rightarrow> results state | Some rs \<Rightarrow> results state @ rs),
      finalReport = (case upd_finalReport u of None \<Rightarrow> finalReport state | Some r \<Rightarrow> r)\<rparr>"

text \<open>
  A configuration of a run: the node to execute next, the running state, and the nodes
  executed so far, oldest first. The list of executed nodes is what the properties below
  use to count the passes through a node; its length is the number of supersteps
  completed.
\<close>

record config =
  nxt :: node
  st :: AgentState
  visited :: "node list"

text \<open>
  Modelled from the spec: how the runtime sequences the nodes, which is likewise done by
  the imported library. From the specification: the workflow executes one node at a
  time, merges the node's update into the state, and then follows the node's edge,
  the conditional edge of the executor being decided on the merged state. At \<open>END\<close>
  there is nothing to run and the configuration stays as it is.
\<close>

definition superstep :: "env \<Rightarrow> config \<Rightarrow> error + config" where
  "superstep e c =
     (if nxt c = END then Inr c
      else case node_action e (length (visited c)) (nxt c) (st c) of
        Inl err \<Rightarrow> Inl err
      | Inr u \<Rightarrow>
          (let state' = merge_update (st c) u in
           Inr \<lparr>nxt = edge (nxt c) state', st = state', visited = visited c @ [nxt c]\<rparr>))"

text \<open>\<open>k\<close> supersteps in a row, stopping at the first one that throws.\<close>

fun supersteps :: "env \<Rightarrow> nat \<Rightarrow> config \<Rightarrow> error + config" where
  "supersteps e 0 c = Inr c"
| "supersteps e (Suc k) c =
     (case superstep e c of Inl err \<Rightarrow> Inl err | Inr c' \<Rightarrow> supersteps e k c')"

text \<open>
  Modelled from the spec: the step cap of the runtime (\<open>recursionLimit\<close>), which is
  enforced by the imported library. From the specification: a hard cap on the total
  number of state transitions, and exceeding it is a fatal abort. The loop runs
  supersteps until \<open>END\<close>; when the cap is used up before \<open>END\<close> it throws.
\<close>

fun pregel_loop :: "env \<Rightarrow> nat \<Rightarrow> config \<Rightarrow> error + config" where
  "pregel_loop e limit c =
     (if nxt c = END then Inr c
      else case limit of
        0 \<Rightarrow> Inl GraphRecursionError
      | Suc limit' \<Rightarrow>
          (case superstep e c of Inl err \<Rightarrow> Inl err | Inr c' \<Rightarrow> pregel_loop e limit' c'))"

declare pregel_loop.simps [simp del]

text \<open>\<open>setEntryPoint("planner")\<close>: a run starts at the planner with nothing visited.\<close>

definition entry :: "AgentState \<Rightarrow> config" where
  "entry state = \<lparr>nxt = planner, st = state, visited = []\<rparr>"

definition graph_invoke :: "env \<Rightarrow> nat \<Rightarrow> AgentState \<Rightarrow> error + AgentState" where
  "graph_invoke e recursionLimit state =
     (case pregel_loop e recursionLimit (entry state) of
        Inl err \<Rightarrow> Inl err
      | Inr c \<Rightarrow> Inr (st c))"

subsection \<open>RoleBasedCooperation.run (lines 216-226)\<close>

definition initialState :: "string \<Rightarrow> AgentState" where
  "initialState q =
     \<lparr>query = q, tasks = [], currentTaskIndex = 0, results = [], finalReport = []\<rparr>"

definition run :: "env \<Rightarrow> string \<Rightarrow> error + string" where
  "run e q =
     (case graph_invoke e 1000 (initialState q) of
        Inl err \<Rightarrow> Inl err
      | Inr finalState \<Rightarrow> Inr (finalReport finalState))"

subsection \<open>Invariant of a run and test doubles\<close>

text \<open>
  What holds of every configuration a run goes through: one result per completed task,
  the index within the task list, each result being what the executor returned for the
  task at its position, and the nodes visited so far determined by the node to run next.
\<close>

definition run_inv :: "env \<Rightarrow> config \<Rightarrow> bool" where
  "run_inv e c \<longleftrightarrow>
     length (results (st c)) = currentTaskIndex (st c) \<and>
     currentTaskIndex (st c) \<le> length (tasks (st c)) \<and>
     (\<forall>j<currentTaskIndex (st c).
        Executor_run e (2 + j) (Some (tasks (st c) ! j)) = Inr (results (st c) ! j)) \<and>
     (case nxt c of
        planner \<Rightarrow> visited c = [] \<and> currentTaskIndex (st c) = 0
      | roleAssigner \<Rightarrow> visited c = [planner] \<and> currentTaskIndex (st c) = 0
      | executor \<Rightarrow>
          visited c = planner # roleAssigner # replicate (currentTaskIndex (st c)) executor \<and>
          (currentTaskIndex (st c) = 0 \<or> currentTaskIndex (st c) < length (tasks (st c)))
      | reporter \<Rightarrow>
          visited c = planner # roleAssigner # replicate (currentTaskIndex (st c)) executor \<and>
          0 < currentTaskIndex (st c) \<and> currentTaskIndex (st c) = length (tasks (st c))
      | END \<Rightarrow>
          visited c =
            planner # roleAssigner # replicate (currentTaskIndex (st c)) executor @ [reporter] \<and>
          0 < currentTaskIndex (st c) \<and> currentTaskIndex (st c) = length (tasks (st c)))"

text \<open>
  Test doubles, after the end-to-end scenario of the specification: a decomposer that
  answers two tasks, a role assigner that answers two roles, an agent that answers
  \<open>Result-X\<close> on the first executor pass and \<open>Result-Y\<close> afterwards, and a reporter that
  answers its own human prompt.
\<close>

definition stub_texts :: prompt_texts where
  "stub_texts =
     \<lparr>roleAssigner_system = ''Design roles.'',
      roleAssigner_before_tasks = ''Tasks: '',
      roleAssigner_after_tasks = '' Assign a role to each.'',
      executor_before_name = ''You are '',
      executor_before_description = ''. About: '',
      executor_before_skills = ''. Skills: '',
      executor_after_skills = ''. Do the task.'',
      executor_before_task = ''Task: '',
      reporter_system = ''Write a report.'',
      reporter_before_query = ''Request: '',
      reporter_before_results = '' Collected: ''\<rparr>"

definition stub_tasks :: "Task list" where
  "stub_tasks =
     [\<lparr>description = ''Research X'',
       role = Some \<lparr>name = ''Scout'', role_description = ''finds X'',
                    keySkills = [''a'', ''b'', ''c'']\<rparr>\<rparr>,
      \<lparr>description = ''Research Y'',
       role = Some \<lparr>name = ''Judge'', role_description = ''weighs Y'',
                    keySkills = [''d'', ''e'', ''f'']\<rparr>\<rparr>]"

definition stub_env :: env where
  "stub_env =
     \<lparr>texts = stub_texts,
      queryDecomposer_run = (\<lambda>q. Inr [''Research X'', ''Research Y'']),
      roleAssigner_chain = (\<lambda>p. Inr (TasksWithRoles stub_tasks)),
      baseAgent_invoke =
        (\<lambda>now ms. Inr (ms @ [Message ''ai'' (if now = 2 then ''Result-X'' else ''Result-Y'')])),
      reporter_chain = (\<lambda>p. Inr (content (last p)))\<rparr>"

definition stub_state :: "nat \<Rightarrow> string list \<Rightarrow> AgentState" where
  "stub_state i rs =
     \<lparr>query = ''Compare X and Y'', tasks = stub_tasks, currentTaskIndex = i, results = rs,
      finalReport = []\<rparr>"

text \<open>The configurations of the stub run after two, three and four supersteps.\<close>

definition stub_c2 :: config where
  "stub_c2 = \<lparr>nxt = executor, st = stub_state 0 [], visited = [planner, roleAssigner]\<rparr>"

definition stub_c3 :: config where
  "stub_c3 = \<lparr>nxt = executor, st = stub_state 1 [''Result-X''],
               visited = [planner, roleAssigner, executor]\<rparr>"

definition stub_c4 :: config where
  "stub_c4 = \<lparr>nxt = reporter, st = stub_state 2 [''Result-X'', ''Result-Y''],
               visited = [planner, roleAssigner, executor, executor]\<rparr>"

text \<open>A decomposer and a role assigner that both answer an empty task list.\<close>

definition empty_env :: env where
  "empty_env = stub_env\<lparr>queryDecomposer_run := (\<lambda>q. Inr []),
                         roleAssigner_chain := (\<lambda>p. Inr (TasksWithRoles []))\<rparr>"

text \<open>
  A role assigner whose parsed output conforms to \<open>TasksWithRolesSchema\<close> yet has a task
  with no role and a role with two key skills.
\<close>

definition unruly_tasks :: "Task list" where
  "unruly_tasks =
     [\<lparr>description = ''Research X'', role = None\<rparr>,
      \<lparr>description = ''Research Y'',
       role = Some \<lparr>name = ''Judge'', role_description = ''weighs Y'',
                    keySkills = [''d'', ''e'']\<rparr>\<rparr>]"

definition unruly_env :: env where
  "unruly_env = stub_env\<lparr>roleAssigner_chain := (\<lambda>p. Inr (TasksWithRoles unruly_tasks))\<rparr>"

section \<open>Properties\<close>

subsection \<open>The invariant holds along every run\<close>

lemma run_inv_entry: "run_inv e (entry (initialState q))"
  by (simp add: run_inv_def entry_def initialState_def)

lemma merge_planTasks:
  "planTasks e s = Inr u \<Longrightarrow> \<exists>ts. merge_update s u = s\<lparr>tasks := ts\<rparr>"
  by (cases s) (auto simp: planTasks_def merge_update_def no_update_def split: sum.splits)

lemma merge_assignRoles:
  "assignRoles e s = Inr u \<Longrightarrow> \<exists>ts. merge_update s u = s\<lparr>tasks := ts\<rparr>"
  by (cases s) (auto simp: assignRoles_def merge_update_def no_update_def split: sum.splits)

lemma merge_executeTask:
  "executeTask e now s = Inr u \<Longrightarrow>
   \<exists>r. Executor_run e now (at_index (tasks s) (currentTaskIndex s)) = Inr r \<and>
       merge_update s u = s\<lparr>results := results s @ [r], currentTaskIndex := currentTaskIndex s + 1\<rparr>"
  by (cases s) (auto simp: executeTask_def merge_update_def no_update_def Let_def split: sum.splits)

lemma merge_generateReport:
  "generateReport e s = Inr u \<Longrightarrow> \<exists>r. merge_update s u = s\<lparr>finalReport := r\<rparr>"
  by (cases s) (auto simp: generateReport_def merge_update_def no_update_def split: sum.splits)

lemma Executor_run_undefined: "Executor_run e now None = Inl (TypeError ''role'')"
  by (simp add: Executor_run_def)

lemma run_inv_superstep:
  assumes "run_inv e c" and "superstep e c = Inr c'"
  shows "run_inv e c'"
proof (cases "nxt c")
  case planner
  with assms(2) obtain u where u: "planTasks e (st c) = Inr u"
    and c': "c' = \<lparr>nxt = roleAssigner, st = merge_update (st c) u, visited = visited c @ [planner]\<rparr>"
    by (auto simp: superstep_def Let_def split: sum.splits)
  from merge_planTasks[OF u] obtain ts where "merge_update (st c) u = (st c)\<lparr>tasks := ts\<rparr>" ..
  with assms(1) planner c' show ?thesis by (simp add: run_inv_def)
next
  case roleAssigner
  with assms(2) obtain u where u: "assignRoles e (st c) = Inr u"
    and c': "c' = \<lparr>nxt = executor, st = merge_update (st c) u, visited = visited c @ [roleAssigner]\<rparr>"
    by (auto simp: superstep_def Let_def split: sum.splits)
  from merge_assignRoles[OF u] obtain ts where "merge_update (st c) u = (st c)\<lparr>tasks := ts\<rparr>" ..
  with assms(1) roleAssigner c' show ?thesis by (simp add: run_inv_def)
next
  case executor
  let ?i = "currentTaskIndex (st c)"
  from executor assms(2) obtain u where u: "executeTask e (length (visited c)) (st c) = Inr u"
    and c': "c' = \<lparr>nxt = edge executor (merge_update (st c) u), st = merge_update (st c) u,
                  visited = visited c @ [executor]\<rparr>"
    by (auto simp: superstep_def Let_def split: sum.splits)
  from merge_executeTask[OF u] obtain r
    where r: "Executor_run e (length (visited c)) (at_index (tasks (st c)) ?i) = Inr r"
      and m: "merge_update (st c) u = (st c)\<lparr>results := results (st c) @ [r], currentTaskIndex := ?i + 1\<rparr>"
    by blast
  from r have lt: "?i < length (tasks (st c))"
    by (cases "?i < length (tasks (st c))") (simp_all add: at_index_def Executor_run_undefined)
  from assms(1) executor have vis: "visited c = planner # roleAssigner # replicate ?i executor"
    and len: "length (results (st c)) = ?i"
    and old: "\<forall>j<?i. Executor_run e (2 + j) (Some (tasks (st c) ! j)) = Inr (results (st c) ! j)"
    by (simp_all add: run_inv_def)
  from vis have now: "length (visited c) = 2 + ?i" by simp
  from r lt now have new: "Executor_run e (2 + ?i) (Some (tasks (st c) ! ?i)) = Inr r"
    by (simp add: at_index_def)
  have all: "\<forall>j<?i + 1. Executor_run e (2 + j) (Some (tasks (st c) ! j)) = Inr ((results (st c) @ [r]) ! j)"
  proof (intro allI impI)
    fix j assume "j < ?i + 1"
    then consider "j < ?i" | "j = ?i" by linarith
    then show "Executor_run e (2 + j) (Some (tasks (st c) ! j)) = Inr ((results (st c) @ [r]) ! j)"
    proof cases
      case 1 with old len show ?thesis by (simp add: nth_append)
    next
      case 2 with new len show ?thesis by (simp add: nth_append)
    qed
  qed
  have rep: "replicate ?i executor @ [executor] = replicate (?i + 1) executor"
    by (simp add: replicate_append_same)
  show ?thesis
    using c' m lt len vis all rep
    by (auto simp: run_inv_def)
next
  case reporter
  with assms(2) obtain u where u: "generateReport e (st c) = Inr u"
    and c': "c' = \<lparr>nxt = END, st = merge_update (st c) u, visited = visited c @ [reporter]\<rparr>"
    by (auto simp: superstep_def Let_def split: sum.splits)
  from merge_generateReport[OF u] obtain r where "merge_update (st c) u = (st c)\<lparr>finalReport := r\<rparr>" ..
  with assms(1) reporter c' show ?thesis by (auto simp: run_inv_def)
next
  case END
  with assms show ?thesis by (simp add: superstep_def)
qed

lemma run_inv_supersteps:
  "run_inv e c \<Longrightarrow> supersteps e k c = Inr c' \<Longrightarrow> run_inv e c'"
proof (induction k arbitrary: c)
  case 0
  then show ?case by simp
next
  case (Suc k)
  then show ?case by (auto split: sum.splits dest: run_inv_superstep)
qed

lemma reachable_inv:
  "supersteps e k (entry (initialState q)) = Inr c \<Longrightarrow> run_inv e c"
  using run_inv_entry run_inv_supersteps by blast

lemma count_list_replicate_same: "count_list (replicate n x) x = n"
  by (induction n) simp_all

lemma run_inv_count:
  "run_inv e c \<Longrightarrow> count_list (visited c) executor = currentTaskIndex (st c)"
  by (cases "nxt c") (auto simp: run_inv_def count_list_replicate_same)

lemma superstep_executor:
  assumes "nxt c = executor" and "superstep e c = Inr c'"
  shows "\<exists>r. Executor_run e (length (visited c))
               (at_index (tasks (st c)) (currentTaskIndex (st c))) = Inr r \<and>
             st c' = (st c)\<lparr>results := results (st c) @ [r],
                            currentTaskIndex := currentTaskIndex (st c) + 1\<rparr> \<and>
             visited c' = visited c @ [executor] \<and>
             nxt c' = edge executor (st c')"
proof -
  from assms obtain u where u: "executeTask e (length (visited c)) (st c) = Inr u"
    and c': "c' = \<lparr>nxt = edge executor (merge_update (st c) u), st = merge_update (st c) u,
                  visited = visited c @ [executor]\<rparr>"
    by (auto simp: superstep_def Let_def split: sum.splits)
  from merge_executeTask[OF u] c' show ?thesis by auto
qed

subsection \<open>The executor loop\<close>

text \<open>
  Claim C1. In every run, after \<open>N\<close> passes through the executor node (\<open>N\<close> being the
  number of times \<open>executor\<close> occurs among the nodes visited), \<open>currentTaskIndex = N\<close>
  and \<open>results\<close> has \<open>N\<close> elements, with \<open>N\<close> between 0 and the number of tasks; the
  result at position \<open>i\<close> is what the executor returned for task \<open>i\<close> (in superstep
  \<open>2 + i\<close>, the planner and the role assigner having taken the first two); and each
  further executor pass appends exactly one string, the result of the task at the index
  before the pass, and increments the index. Appending is the merge rule of the graph
  runtime as the specification describes it.
\<close>

theorem executor_loop_invariant:
  assumes "supersteps e k (entry (initialState q)) = Inr c"
  shows "currentTaskIndex (st c) = count_list (visited c) executor \<and>
         length (results (st c)) = count_list (visited c) executor \<and>
         count_list (visited c) executor \<le> length (tasks (st c)) \<and>
         (\<forall>i<count_list (visited c) executor.
            Executor_run e (2 + i) (Some (tasks (st c) ! i)) = Inr (results (st c) ! i)) \<and>
         (\<forall>c'. nxt c = executor \<and> superstep e c = Inr c' \<longrightarrow>
            (\<exists>r. Executor_run e (length (visited c))
                   (at_index (tasks (st c)) (currentTaskIndex (st c))) = Inr r \<and>
                 results (st c') = results (st c) @ [r] \<and>
                 currentTaskIndex (st c') = currentTaskIndex (st c) + 1 \<and>
                 count_list (visited c') executor = count_list (visited c) executor + 1))"
proof -
  from assms have inv: "run_inv e c" by (rule reachable_inv)
  note n = run_inv_count[OF inv]
  have step: "\<exists>r. Executor_run e (length (visited c))
                   (at_index (tasks (st c)) (currentTaskIndex (st c))) = Inr r \<and>
                 results (st c') = results (st c) @ [r] \<and>
                 currentTaskIndex (st c') = currentTaskIndex (st c) + 1 \<and>
                 count_list (visited c') executor = count_list (visited c) executor + 1"
    if "nxt c = executor \<and> superstep e c = Inr c'" for c'
  proof -
    from that superstep_executor[of c e c'] obtain r
      where "Executor_run e (length (visited c))
               (at_index (tasks (st c)) (currentTaskIndex (st c))) = Inr r"
        and "st c' = (st c)\<lparr>results := results (st c) @ [r],
                            currentTaskIndex := currentTaskIndex (st c) + 1\<rparr>"
        and "visited c' = visited c @ [executor]"
      by blast
    then show ?thesis by auto
  qed
  from inv n step show ?thesis by (simp add: run_inv_def)
qed

subsection \<open>Single supersteps\<close>

lemma superstep_not_END:
  assumes "nxt c \<noteq> END" and "superstep e c = Inr c'"
  shows "\<exists>u. node_action e (length (visited c)) (nxt c) (st c) = Inr u \<and>
             st c' = merge_update (st c) u \<and> nxt c' = edge (nxt c) (st c') \<and>
             visited c' = visited c @ [nxt c]"
  using assms by (auto simp: superstep_def Let_def split: sum.splits)

lemma superstep_END: "nxt c = END \<Longrightarrow> superstep e c = Inr c"
  by (simp add: superstep_def)

lemma supersteps_END: "nxt c = END \<Longrightarrow> supersteps e k c = Inr c"
  by (induction k) (simp_all add: superstep_END)

lemma superstep_index_mono:
  assumes "superstep e c = Inr c'"
  shows "currentTaskIndex (st c) \<le> currentTaskIndex (st c')"
proof (cases "nxt c")
  case planner
  with assms superstep_not_END[of c e c'] merge_planTasks[of e "st c"] show ?thesis by auto
next
  case roleAssigner
  with assms superstep_not_END[of c e c'] merge_assignRoles[of e "st c"] show ?thesis by auto
next
  case executor
  with assms superstep_executor[of c e c'] show ?thesis by auto
next
  case reporter
  with assms superstep_not_END[of c e c'] merge_generateReport[of e "st c"] show ?thesis by auto
next
  case END
  with assms show ?thesis by (simp add: superstep_END)
qed

lemma supersteps_index_mono:
  "supersteps e j c = Inr c' \<Longrightarrow> currentTaskIndex (st c) \<le> currentTaskIndex (st c')"
proof (induction j arbitrary: c)
  case 0
  then show ?case by simp
next
  case (Suc j)
  then obtain c1 where 1: "superstep e c = Inr c1" and 2: "supersteps e j c1 = Inr c'"
    by (auto split: sum.splits)
  from superstep_index_mono[OF 1] Suc.IH[OF 2] show ?case by simp
qed

text \<open>
  Claim C4. In every run, after a pass through the executor node the conditional edge
  leads to the reporter exactly when \<open>currentTaskIndex\<close> equals the number of tasks, and
  back to the executor exactly when it is smaller; there is no third target.
\<close>

theorem executor_transition_iff:
  assumes "supersteps e k (entry (initialState q)) = Inr c"
    and "nxt c = executor"
    and "superstep e c = Inr c'"
  shows "(nxt c' = reporter \<longleftrightarrow> currentTaskIndex (st c') = length (tasks (st c'))) \<and>
         (nxt c' = executor \<longleftrightarrow> currentTaskIndex (st c') < length (tasks (st c'))) \<and>
         (nxt c' = reporter \<or> nxt c' = executor)"
proof -
  from assms(1) have "run_inv e c" by (rule reachable_inv)
  then have "run_inv e c'" using assms(3) by (rule run_inv_superstep)
  then have le: "currentTaskIndex (st c') \<le> length (tasks (st c'))"
    by (simp add: run_inv_def)
  from superstep_executor[OF assms(2,3)] have "nxt c' = edge executor (st c')" by blast
  with le show ?thesis by auto
qed

text \<open>
  The loop ends: from the executor, when the executor call for every remaining task
  returns, the reporter is reached after one superstep per remaining task.
\<close>

lemma executor_loop_terminates:
  assumes "run_inv e c" and "nxt c = executor"
    and "currentTaskIndex (st c) < length (tasks (st c))"
    and "\<forall>i. currentTaskIndex (st c) \<le> i \<and> i < length (tasks (st c)) \<longrightarrow>
           (\<exists>r. Executor_run e (2 + i) (Some (tasks (st c) ! i)) = Inr r)"
  shows "\<exists>c'. supersteps e (length (tasks (st c)) - currentTaskIndex (st c)) c = Inr c' \<and>
              nxt c' = reporter \<and> currentTaskIndex (st c') = length (tasks (st c')) \<and>
              tasks (st c') = tasks (st c)"
  using assms
proof (induction "length (tasks (st c)) - currentTaskIndex (st c)" arbitrary: c)
  case 0
  then show ?case by simp
next
  case (Suc d)
  let ?i = "currentTaskIndex (st c)"
  from Suc.prems(1,2) have vis: "length (visited c) = 2 + ?i" by (simp add: run_inv_def)
  from Suc.prems(3,4) obtain r
    where ex: "Executor_run e (2 + ?i) (Some (tasks (st c) ! ?i)) = Inr r"
    by (metis le_refl)
  define s1 where "s1 = (st c)\<lparr>results := results (st c) @ [r], currentTaskIndex := ?i + 1\<rparr>"
  define c1 where "c1 = \<lparr>nxt = edge executor s1, st = s1, visited = visited c @ [executor]\<rparr>"
  have m: "merge_update (st c)
             (no_update\<lparr>upd_results := Some [r], upd_currentTaskIndex := Some (?i + 1)\<rparr>) = s1"
    unfolding s1_def by (cases "st c") (simp add: merge_update_def no_update_def)
  have step: "superstep e c = Inr c1"
    using Suc.prems(2,3) ex vis m
    by (simp add: superstep_def executeTask_def at_index_def Let_def c1_def)
  from Suc.prems(1) step have inv1: "run_inv e c1" by (rule run_inv_superstep)
  have t1: "tasks (st c1) = tasks (st c)" and i1: "currentTaskIndex (st c1) = ?i + 1"
    by (simp_all add: c1_def s1_def)
  show ?case
  proof (cases "?i + 1 < length (tasks (st c))")
    case True
    have d: "d = length (tasks (st c1)) - currentTaskIndex (st c1)"
      using Suc.hyps(2) t1 i1 by simp
    have n1: "nxt c1 = executor" using True by (simp add: c1_def s1_def)
    have lt1: "currentTaskIndex (st c1) < length (tasks (st c1))" using True t1 i1 by simp
    have all1: "\<forall>i. currentTaskIndex (st c1) \<le> i \<and> i < length (tasks (st c1)) \<longrightarrow>
           (\<exists>r. Executor_run e (2 + i) (Some (tasks (st c1) ! i)) = Inr r)"
      using Suc.prems(4) t1 i1 by simp
    from Suc.hyps(1)[OF d inv1 n1 lt1 all1] obtain c'
      where "supersteps e (length (tasks (st c1)) - currentTaskIndex (st c1)) c1 = Inr c'"
        and "nxt c' = reporter" and "currentTaskIndex (st c') = length (tasks (st c'))"
        and "tasks (st c') = tasks (st c1)"
      by blast
    moreover have "length (tasks (st c)) - ?i = Suc (length (tasks (st c1)) - currentTaskIndex (st c1))"
      using True t1 i1 by simp
    ultimately show ?thesis using step t1 by simp
  next
    case False
    with Suc.prems(3) have eq: "?i + 1 = length (tasks (st c))" by simp
    then have "length (tasks (st c)) - ?i = Suc 0" by simp
    moreover have "nxt c1 = reporter" using eq by (simp add: c1_def s1_def)
    ultimately show ?thesis using step t1 i1 eq by simp
  qed
qed

text \<open>
  Claim C5. In every configuration of every run \<open>currentTaskIndex\<close> is at most the
  number of tasks; it never decreases over any number of further supersteps; once the
  executor has run, the loop has been left exactly when the index equals the number of
  tasks; and the loop does end there: from the executor, when each remaining executor
  call returns, the reporter is reached after one superstep per remaining task, with
  the index equal to the number of tasks.
\<close>

theorem currentTaskIndex_monotone_bounded:
  assumes "supersteps e k (entry (initialState q)) = Inr c"
  shows "currentTaskIndex (st c) \<le> length (tasks (st c)) \<and>
         (\<forall>j c'. supersteps e j c = Inr c' \<longrightarrow>
            currentTaskIndex (st c) \<le> currentTaskIndex (st c')) \<and>
         (executor \<in> set (visited c) \<longrightarrow>
            (nxt c \<noteq> executor \<longleftrightarrow> currentTaskIndex (st c) = length (tasks (st c)))) \<and>
         (nxt c = executor \<and> currentTaskIndex (st c) < length (tasks (st c)) \<and>
          (\<forall>i. currentTaskIndex (st c) \<le> i \<and> i < length (tasks (st c)) \<longrightarrow>
             (\<exists>r. Executor_run e (2 + i) (Some (tasks (st c) ! i)) = Inr r)) \<longrightarrow>
          (\<exists>c'. supersteps e (length (tasks (st c)) - currentTaskIndex (st c)) c = Inr c' \<and>
             nxt c' = reporter \<and> currentTaskIndex (st c') = length (tasks (st c'))))"
proof -
  from assms have inv: "run_inv e c" by (rule reachable_inv)
  have exit: "nxt c \<noteq> executor \<longleftrightarrow> currentTaskIndex (st c) = length (tasks (st c))"
    if "executor \<in> set (visited c)"
    using inv that by (cases "nxt c") (auto simp: run_inv_def)
  have bound: "currentTaskIndex (st c) \<le> length (tasks (st c))"
    using inv by (simp add: run_inv_def)
  have mono: "\<forall>j c'. supersteps e j c = Inr c' \<longrightarrow>
            currentTaskIndex (st c) \<le> currentTaskIndex (st c')"
    using supersteps_index_mono by blast
  have ends: "\<exists>c'. supersteps e (length (tasks (st c)) - currentTaskIndex (st c)) c = Inr c' \<and>
             nxt c' = reporter \<and> currentTaskIndex (st c') = length (tasks (st c'))"
    if "nxt c = executor \<and> currentTaskIndex (st c) < length (tasks (st c)) \<and>
          (\<forall>i. currentTaskIndex (st c) \<le> i \<and> i < length (tasks (st c)) \<longrightarrow>
             (\<exists>r. Executor_run e (2 + i) (Some (tasks (st c) ! i)) = Inr r))"
    using executor_loop_terminates[OF inv] that by blast
  from bound mono exit ends show ?thesis by blast
qed

subsection \<open>The step cap\<close>

lemma superstep_visited:
  "superstep e c = Inr c' \<Longrightarrow> length (visited c') \<le> Suc (length (visited c))"
  by (cases "nxt c = END") (auto simp: superstep_END dest: superstep_not_END)

lemma pregel_loop_Inr:
  "pregel_loop e limit c = Inr c' \<Longrightarrow>
   nxt c' = END \<and> length (visited c') \<le> length (visited c) + limit \<and>
   (\<exists>k\<le>limit. supersteps e k c = Inr c')"
proof (induction limit arbitrary: c)
  case 0
  then show ?case
    by (cases "nxt c = END") (auto simp: pregel_loop.simps[of e 0 c])
next
  case (Suc limit)
  show ?case
  proof (cases "nxt c = END")
    case True
    with Suc.prems have "c' = c" by (simp add: pregel_loop.simps[of e "Suc limit" c])
    with True show ?thesis by (auto intro: exI[of _ 0])
  next
    case False
    with Suc.prems obtain c1 where 1: "superstep e c = Inr c1"
      and 2: "pregel_loop e limit c1 = Inr c'"
      by (auto simp: pregel_loop.simps[of e "Suc limit" c] split: sum.splits)
    from Suc.IH[OF 2] obtain k where k: "k \<le> limit" "supersteps e k c1 = Inr c'"
      and e: "nxt c' = END" and l: "length (visited c') \<le> length (visited c1) + limit"
      by blast
    from k 1 have "Suc k \<le> Suc limit \<and> supersteps e (Suc k) c = Inr c'" by simp
    with e l superstep_visited[OF 1] show ?thesis by (metis add_Suc_right add_Suc le_trans add_le_mono1)
  qed
qed

lemma pregel_loop_out_of_steps:
  "supersteps e limit c = Inr c' \<Longrightarrow> nxt c' \<noteq> END \<Longrightarrow>
   pregel_loop e limit c = Inl GraphRecursionError"
proof (induction limit arbitrary: c)
  case 0
  then show ?case by (simp add: pregel_loop.simps[of e 0])
next
  case (Suc limit)
  from Suc.prems have ne: "nxt c \<noteq> END"
    using supersteps_END[of c e "Suc limit"] by auto
  from Suc.prems obtain c1 where 1: "superstep e c = Inr c1"
    and 2: "supersteps e limit c1 = Inr c'"
    by (auto split: sum.splits)
  from Suc.IH[OF 2 Suc.prems(2)] ne 1 show ?case
    by (simp add: pregel_loop.simps[of e "Suc limit" c])
qed

text \<open>
  Claim C10. With the step cap of the graph runtime as the specification describes it:
  a run that returns a state has made its \<open>tasks + 3\<close> transitions within the cap; a
  run that has not reached \<open>END\<close> after \<open>limit\<close> supersteps aborts with
  \<open>GraphRecursionError\<close>, returns no state and so no report, and has not executed the
  reporter; and \<open>run\<close> passes the cap 1000.
\<close>

theorem recursion_limit_hard_cap:
  "(\<forall>s. graph_invoke e limit (initialState q) = Inr s \<longrightarrow> length (tasks s) + 3 \<le> limit) \<and>
   (\<forall>c. supersteps e limit (entry (initialState q)) = Inr c \<and> nxt c \<noteq> END \<longrightarrow>
      graph_invoke e limit (initialState q) = Inl GraphRecursionError \<and>
      reporter \<notin> set (visited c)) \<and>
   run e q = (case graph_invoke e 1000 (initialState q) of
                Inl err \<Rightarrow> Inl err | Inr s \<Rightarrow> Inr (finalReport s))"
proof (intro conjI allI impI)
  fix s assume "graph_invoke e limit (initialState q) = Inr s"
  then obtain c where c: "pregel_loop e limit (entry (initialState q)) = Inr c" and s: "s = st c"
    by (auto simp: graph_invoke_def split: sum.splits)
  from pregel_loop_Inr[OF c] obtain k where "supersteps e k (entry (initialState q)) = Inr c"
    and e: "nxt c = END" and l: "length (visited c) \<le> limit"
    by (auto simp: entry_def)
  then have "run_inv e c" using reachable_inv by blast
  with e have "length (visited c) = length (tasks (st c)) + 3" by (simp add: run_inv_def)
  with l s show "length (tasks s) + 3 \<le> limit" by simp
next
  fix c assume a: "supersteps e limit (entry (initialState q)) = Inr c \<and> nxt c \<noteq> END"
  then show "graph_invoke e limit (initialState q) = Inl GraphRecursionError"
    by (simp add: graph_invoke_def pregel_loop_out_of_steps)
  from a have "run_inv e c" using reachable_inv by blast
  with a show "reporter \<notin> set (visited c)"
    by (cases "nxt c") (auto simp: run_inv_def)
next
  show "run e q = (case graph_invoke e 1000 (initialState q) of
                Inl err \<Rightarrow> Inl err | Inr s \<Rightarrow> Inr (finalReport s))"
    by (simp add: run_def)
qed

subsection \<open>The stub run\<close>

lemmas stub_defs =
  stub_env_def stub_texts_def stub_tasks_def stub_state_def stub_c2_def stub_c3_def stub_c4_def
  empty_env_def unruly_env_def unruly_tasks_def

lemmas run_defs =
  superstep_def entry_def initialState_def planTasks_def assignRoles_def executeTask_def
  generateReport_def Planner_run_def RoleAssigner_run_def Executor_run_def Reporter_run_def
  at_index_def merge_update_def no_update_def Let_def

lemma stub_reach_2: "supersteps stub_env 2 (entry (initialState ''Compare X and Y'')) = Inr stub_c2"
  by (simp add: eval_nat_numeral stub_defs run_defs)

lemma stub_reach_3: "supersteps stub_env 3 (entry (initialState ''Compare X and Y'')) = Inr stub_c3"
  by (simp add: eval_nat_numeral stub_defs run_defs)

lemma stub_reach_4: "supersteps stub_env 4 (entry (initialState ''Compare X and Y'')) = Inr stub_c4"
  by (simp add: eval_nat_numeral stub_defs run_defs)

lemma stub_step_2: "superstep stub_env stub_c2 = Inr stub_c3"
  by (simp add: stub_defs run_defs)

lemma stub_step_3: "superstep stub_env stub_c3 = Inr stub_c4"
  by (simp add: stub_defs run_defs)

theorem executor_loop_invariant_witness:
  "supersteps stub_env 3 (entry (initialState ''Compare X and Y'')) = Inr stub_c3 \<and>
   nxt stub_c3 = executor \<and> superstep stub_env stub_c3 = Inr stub_c4 \<and>
   count_list (visited stub_c3) executor = 1 \<and>
   currentTaskIndex (st stub_c3) = 1 \<and> length (results (st stub_c3)) = 1 \<and>
   Executor_run stub_env 2 (Some (tasks (st stub_c3) ! 0)) = Inr (results (st stub_c3) ! 0) \<and>
   results (st stub_c4) = results (st stub_c3) @ [''Result-Y''] \<and>
   currentTaskIndex (st stub_c4) = 2"
  using executor_loop_invariant[OF stub_reach_3] stub_reach_3 stub_step_3
  by (simp add: stub_defs Executor_run_def at_index_def)

theorem executor_transition_iff_witness:
  "supersteps stub_env 2 (entry (initialState ''Compare X and Y'')) = Inr stub_c2 \<and>
   nxt stub_c2 = executor \<and> superstep stub_env stub_c2 = Inr stub_c3 \<and>
   nxt stub_c3 = executor \<and> currentTaskIndex (st stub_c3) < length (tasks (st stub_c3)) \<and>
   supersteps stub_env 3 (entry (initialState ''Compare X and Y'')) = Inr stub_c3 \<and>
   superstep stub_env stub_c3 = Inr stub_c4 \<and>
   nxt stub_c4 = reporter \<and> currentTaskIndex (st stub_c4) = length (tasks (st stub_c4))"
  using executor_transition_iff[OF stub_reach_2 _ stub_step_2]
    executor_transition_iff[OF stub_reach_3 _ stub_step_3]
    stub_reach_2 stub_step_2 stub_reach_3 stub_step_3
  by (simp add: stub_defs)

theorem currentTaskIndex_monotone_bounded_witness:
  "supersteps stub_env 3 (entry (initialState ''Compare X and Y'')) = Inr stub_c3 \<and>
   currentTaskIndex (st stub_c3) \<le> length (tasks (st stub_c3)) \<and>
   supersteps stub_env 1 stub_c3 = Inr stub_c4 \<and>
   currentTaskIndex (st stub_c3) \<le> currentTaskIndex (st stub_c4) \<and>
   executor \<in> set (visited stub_c3) \<and> nxt stub_c3 = executor \<and>
   currentTaskIndex (st stub_c3) < length (tasks (st stub_c3)) \<and>
   Executor_run stub_env 3 (Some (tasks (st stub_c3) ! 1)) = Inr ''Result-Y'' \<and>
   (\<exists>c'. supersteps stub_env (length (tasks (st stub_c3)) - currentTaskIndex (st stub_c3))
            stub_c3 = Inr c' \<and>
      nxt c' = reporter \<and> currentTaskIndex (st c') = length (tasks (st c')))"
proof -
  have 1: "supersteps stub_env 1 stub_c3 = Inr stub_c4"
    using stub_step_3 by simp
  have 2: "nxt stub_c3 = executor" "executor \<in> set (visited stub_c3)"
    "currentTaskIndex (st stub_c3) < length (tasks (st stub_c3))"
    by (simp_all add: stub_defs)
  have 3: "\<forall>i. currentTaskIndex (st stub_c3) \<le> i \<and> i < length (tasks (st stub_c3)) \<longrightarrow>
      (\<exists>r. Executor_run stub_env (2 + i) (Some (tasks (st stub_c3) ! i)) = Inr r)"
  proof (intro allI impI)
    fix i assume "currentTaskIndex (st stub_c3) \<le> i \<and> i < length (tasks (st stub_c3))"
    then have "i = 1" by (simp add: stub_defs)
    then show "\<exists>r. Executor_run stub_env (2 + i) (Some (tasks (st stub_c3) ! i)) = Inr r"
      by (simp add: stub_defs Executor_run_def at_index_def)
  qed
  have 4: "Executor_run stub_env 3 (Some (tasks (st stub_c3) ! 1)) = Inr ''Result-Y''"
    by (simp add: stub_defs Executor_run_def at_index_def)
  from currentTaskIndex_monotone_bounded[OF stub_reach_3] 1 2 3 4 stub_reach_3
  show ?thesis by blast
qed

theorem recursion_limit_hard_cap_witness:
  "graph_invoke stub_env 5 (initialState ''Compare X and Y'') =
     Inr ((stub_state 2 [''Result-X'', ''Result-Y''])
            \<lparr>finalReport := ''Request: Compare X and Y Collected: Info 1:\<newline>Result-X\<newline>\<newline>Info 2:\<newline>Result-Y''\<rparr>) \<and>
   length stub_tasks + 3 \<le> 5 \<and>
   supersteps stub_env 4 (entry (initialState ''Compare X and Y'')) = Inr stub_c4 \<and>
   nxt stub_c4 \<noteq> END \<and>
   graph_invoke stub_env 4 (initialState ''Compare X and Y'') = Inl GraphRecursionError \<and>
   reporter \<notin> set (visited stub_c4)"
proof -
  have five: "graph_invoke stub_env 5 (initialState ''Compare X and Y'') =
     Inr ((stub_state 2 [''Result-X'', ''Result-Y''])
            \<lparr>finalReport := ''Request: Compare X and Y Collected: Info 1:\<newline>Result-X\<newline>\<newline>Info 2:\<newline>Result-Y''\<rparr>)"
    by (simp add: graph_invoke_def pregel_loop.simps eval_nat_numeral stub_defs run_defs
        Reporter_prompt_def Reporter_results_def map_indexed_def enumerate_eq_zip
        string_of_nat.simps)
  from recursion_limit_hard_cap[of stub_env 5 "''Compare X and Y''"] five
  have "length stub_tasks + 3 \<le> 5" by (simp add: stub_defs)
  moreover from recursion_limit_hard_cap[of stub_env 4 "''Compare X and Y''"] stub_reach_4
  have "graph_invoke stub_env 4 (initialState ''Compare X and Y'') = Inl GraphRecursionError \<and>
        reporter \<notin> set (visited stub_c4)"
    by (simp add: stub_defs)
  ultimately show ?thesis using five stub_reach_4 by (simp add: stub_defs)
qed

subsection \<open>An empty task list\<close>

text \<open>
  Claim C2 says that with an empty task list the executor node is never entered and the
  reporter runs on an empty result list. The edge from \<open>roleAssigner\<close> to \<open>executor\<close>
  is unconditional, and the loop condition is only evaluated after an executor pass:
  with a decomposer and a role assigner that answer no task, the run is at the executor
  after two supersteps, the executor reads \<open>tasks[0]\<close>, which is undefined, and the run
  throws a \<open>TypeError\<close> instead of reporting.
\<close>

theorem empty_task_list_enters_executor:
  "supersteps empty_env 2 (entry (initialState ''q'')) =
     Inr \<lparr>nxt = executor, st = initialState ''q'', visited = [planner, roleAssigner]\<rparr> \<and>
   superstep empty_env
     \<lparr>nxt = executor, st = initialState ''q'', visited = [planner, roleAssigner]\<rparr> =
     Inl (TypeError ''role'') \<and>
   run empty_env ''q'' = Inl (TypeError ''role'')"
  by (simp add: run_def graph_invoke_def pregel_loop.simps eval_nat_numeral stub_defs run_defs)

text \<open>The same for any environment that answers no task, under any cap of at least 3.\<close>

lemma empty_task_list_aborts:
  assumes "queryDecomposer_run e q = Inr []"
    and "roleAssigner_chain e (RoleAssigner_prompt (texts e) []) = Inr (TasksWithRoles [])"
    and "3 \<le> limit"
  shows "graph_invoke e limit (initialState q) = Inl (TypeError ''role'')"
proof -
  from assms(3) obtain l where "limit = Suc (Suc (Suc l))"
    by (metis add_Suc_right add_Suc le_Suc_ex numeral_3_eq_3 add_0)
  with assms(1,2) show ?thesis
    by (simp add: graph_invoke_def pregel_loop.simps run_defs)
qed

subsection \<open>RoleAssigner\<close>

text \<open>
  Claim C3 as stated fails: \<open>TasksWithRolesSchema\<close> accepts a task without a role and
  a role with two key skills, and \<open>RoleAssigner.run\<close> returns them for a non-empty input.
\<close>

theorem RoleAssigner_schema_counterexample:
  "[\<lparr>description = ''Research X'', role = None\<rparr>] \<noteq> [] \<and>
   RoleAssigner_run unruly_env [\<lparr>description = ''Research X'', role = None\<rparr>] =
     Inr [\<lparr>description = ''Research X'', role = None\<rparr>,
          \<lparr>description = ''Research Y'',
           role = Some \<lparr>name = ''Judge'', role_description = ''weighs Y'',
                        keySkills = [''d'', ''e'']\<rparr>\<rparr>] \<and>
   role \<lparr>description = ''Research X'', role = None\<rparr> = None \<and>
   length (keySkills \<lparr>name = ''Judge'', role_description = ''weighs Y'',
                      keySkills = [''d'', ''e'']\<rparr>) \<noteq> 3"
  by (simp add: RoleAssigner_run_def stub_defs)

text \<open>
  Claim C3, amended. For every non-empty input task list, when every task of the
  language model's parsed output has a role with exactly 3 key skills, \<open>RoleAssigner.run\<close>
  returns a list in which every task has a role with exactly 3 key skills. The schema
  does not enforce it; the count is only asked for in the prompt.
\<close>

theorem RoleAssigner_roles_as_parsed:
  assumes "ts \<noteq> []"
    and "roleAssigner_chain e (RoleAssigner_prompt (texts e) ts) = Inr out"
    and "\<forall>t\<in>set (tasks_of out). \<exists>r. role t = Some r \<and> length (keySkills r) = 3"
  shows "\<exists>ts'. RoleAssigner_run e ts = Inr ts' \<and>
           (\<forall>t\<in>set ts'. \<exists>r. role t = Some r \<and> length (keySkills r) = 3)"
  using assms by (simp add: RoleAssigner_run_def)

theorem RoleAssigner_roles_as_parsed_witness:
  "[\<lparr>description = ''Research X'', role = None\<rparr>] \<noteq> [] \<and>
   roleAssigner_chain stub_env
     (RoleAssigner_prompt (texts stub_env) [\<lparr>description = ''Research X'', role = None\<rparr>]) =
     Inr (TasksWithRoles stub_tasks) \<and>
   map (\<lambda>t. map_option (\<lambda>r. length (keySkills r)) (role t)) stub_tasks = [Some 3, Some 3] \<and>
   (\<exists>ts'. RoleAssigner_run stub_env [\<lparr>description = ''Research X'', role = None\<rparr>] = Inr ts' \<and>
      map (\<lambda>t. map_option (\<lambda>r. length (keySkills r)) (role t)) ts' = [Some 3, Some 3])"
proof -
  have 1: "[\<lparr>description = ''Research X'', role = None\<rparr>] \<noteq> []" by simp
  have 2: "roleAssigner_chain stub_env
     (RoleAssigner_prompt (texts stub_env) [\<lparr>description = ''Research X'', role = None\<rparr>]) =
     Inr (TasksWithRoles stub_tasks)"
    by (simp add: stub_env_def)
  have 3: "\<forall>t\<in>set (tasks_of (TasksWithRoles stub_tasks)).
             \<exists>r. role t = Some r \<and> length (keySkills r) = 3"
    by (simp add: stub_tasks_def)
  have 4: "map (\<lambda>t. map_option (\<lambda>r. length (keySkills r)) (role t)) stub_tasks = [Some 3, Some 3]"
    by (simp add: stub_tasks_def)
  from RoleAssigner_roles_as_parsed[OF 1 2 3] obtain ts'
    where "RoleAssigner_run stub_env [\<lparr>description = ''Research X'', role = None\<rparr>] = Inr ts'"
    by blast
  moreover from this 2 have "ts' = stub_tasks" by (simp add: RoleAssigner_run_def)
  ultimately show ?thesis using 1 2 4 by simp
qed

text \<open>
  Claim C6. Whatever the input tasks, \<open>RoleAssigner.run\<close> returns the task list of the
  parsed structured output unchanged: nothing compares it with the input or re-aligns
  it, whatever its length and order.
\<close>

theorem RoleAssigner_run_verbatim:
  assumes "roleAssigner_chain e (RoleAssigner_prompt (texts e) ts) = Inr out"
  shows "RoleAssigner_run e ts = Inr (tasks_of out)"
  using assms by (simp add: RoleAssigner_run_def)

theorem RoleAssigner_run_verbatim_witness:
  "roleAssigner_chain stub_env
     (RoleAssigner_prompt (texts stub_env)
        [\<lparr>description = ''Research Y'', role = None\<rparr>,
         \<lparr>description = ''Research Z'', role = None\<rparr>,
         \<lparr>description = ''Research X'', role = None\<rparr>]) = Inr (TasksWithRoles stub_tasks) \<and>
   RoleAssigner_run stub_env
        [\<lparr>description = ''Research Y'', role = None\<rparr>,
         \<lparr>description = ''Research Z'', role = None\<rparr>,
         \<lparr>description = ''Research X'', role = None\<rparr>] = Inr stub_tasks \<and>
   length stub_tasks = 2 \<and> map description stub_tasks = [''Research X'', ''Research Y'']"
proof -
  have 1: "roleAssigner_chain stub_env
     (RoleAssigner_prompt (texts stub_env)
        [\<lparr>description = ''Research Y'', role = None\<rparr>,
         \<lparr>description = ''Research Z'', role = None\<rparr>,
         \<lparr>description = ''Research X'', role = None\<rparr>]) = Inr (TasksWithRoles stub_tasks)"
    by (simp add: stub_env_def)
  from RoleAssigner_run_verbatim[OF 1] 1 show ?thesis by (simp add: stub_tasks_def)
qed

subsection \<open>Executor\<close>

lemma at_index_last:
  "at_index ms (length ms - 1) = (if ms = [] then None else Some (last ms))"
  by (cases ms rule: rev_cases) (simp_all add: at_index_def)

text \<open>
  Claim C7. For a task whose role is populated, the reads of \<open>role.name\<close>,
  \<open>role.description\<close> and \<open>role.keySkills\<close> do not throw: the agent is invoked on the
  messages built from the role, and the outcome is the agent's (its failure, its last
  message, or the \<open>TypeError\<close> of reading \<open>content\<close> off an empty message list). For
  a task without a role there is no guard: the read of \<open>name\<close> throws.
\<close>

theorem Executor_run_role_precondition:
  "(\<forall>r. role t = Some r \<longrightarrow>
      Executor_run e now (Some t) =
        (case baseAgent_invoke e now (Executor_messages (texts e) r t) of
           Inl m \<Rightarrow> Inl (External m)
         | Inr ms \<Rightarrow> if ms = [] then Inl (TypeError ''content'') else Inr (content (last ms))) \<and>
      Executor_run e now (Some t) \<noteq> Inl (TypeError ''role'') \<and>
      Executor_run e now (Some t) \<noteq> Inl (TypeError ''name'') \<and>
      Executor_run e now (Some t) \<noteq> Inl (TypeError ''description'') \<and>
      Executor_run e now (Some t) \<noteq> Inl (TypeError ''keySkills'')) \<and>
   (role t = None \<longrightarrow> Executor_run e now (Some t) = Inl (TypeError ''name''))"
  unfolding Executor_run_def at_index_last by (auto split: sum.splits)

theorem Executor_run_role_precondition_witness:
  "role (stub_tasks ! 0) =
     Some \<lparr>name = ''Scout'', role_description = ''finds X'', keySkills = [''a'', ''b'', ''c'']\<rparr> \<and>
   Executor_run stub_env 2 (Some (stub_tasks ! 0)) = Inr ''Result-X'' \<and>
   role \<lparr>description = ''Research X'', role = None\<rparr> = None \<and>
   Executor_run stub_env 2 (Some \<lparr>description = ''Research X'', role = None\<rparr>) =
     Inl (TypeError ''name'')"
  using Executor_run_role_precondition[of "stub_tasks ! 0" stub_env 2]
    Executor_run_role_precondition[of "\<lparr>description = ''Research X'', role = None\<rparr>" stub_env 2]
  by (simp add: stub_defs)

subsection \<open>Reporter\<close>

lemma map_indexed_conv:
  "map_indexed f xs = map (\<lambda>i. f (xs ! i) i) [0..<length xs]"
  by (rule nth_equalityI) (simp_all add: map_indexed_def enumerate_eq_zip)

lemma sublist_behind: "sublist x b \<Longrightarrow> sublist x (a @ b)"
  by (simp add: sublist_append)

lemma sublist_join: "x \<in> set xs \<Longrightarrow> sublist x (join sep xs)"
proof (induction sep xs rule: join.induct)
  case (1 sep)
  then show ?case by simp
next
  case (2 sep y)
  then show ?case by simp
next
  case (3 sep y z zs)
  show ?case
  proof (cases "x = y")
    case True
    then show ?thesis by simp
  next
    case False
    with 3 have "sublist x (join sep (z # zs))" by simp
    then have "sublist x (y @ sep @ join sep (z # zs))" by (intro sublist_behind)
    then show ?thesis by simp
  qed
qed

text \<open>
  Claim C8. For every query and every list of results, \<open>Reporter.run\<close> sends one prompt
  to the chain; its human message contains the query and, for every position \<open>i\<close>, the
  block \<open>Info i+1\<close>, a colon, a newline and the result at \<open>i\<close>; the results part is these
  blocks in list order, joined by blank lines.
\<close>

theorem Reporter_prompt_labels:
  "Reporter_prompt t q rs =
     [Message ''system'' (reporter_system t),
      Message ''human''
        (reporter_before_query t @ q @ reporter_before_results t @ Reporter_results rs)] \<and>
   Reporter_results rs =
     join ''\<newline>\<newline>''
       (map (\<lambda>i. ''Info '' @ string_of_nat (i + 1) @ '':\<newline>'' @ rs ! i) [0..<length rs]) \<and>
   sublist q (content (last (Reporter_prompt t q rs))) \<and>
   (\<forall>i<length rs.
      sublist (''Info '' @ string_of_nat (i + 1) @ '':\<newline>'' @ rs ! i)
        (content (last (Reporter_prompt t q rs)))) \<and>
   Reporter_run e q rs =
     (case reporter_chain e (Reporter_prompt (texts e) q rs) of
        Inl m \<Rightarrow> Inl (External m) | Inr report \<Rightarrow> Inr report)"
proof (intro conjI allI impI)
  show "Reporter_prompt t q rs =
     [Message ''system'' (reporter_system t),
      Message ''human''
        (reporter_before_query t @ q @ reporter_before_results t @ Reporter_results rs)]"
    by (simp add: Reporter_prompt_def)
  show conv: "Reporter_results rs =
     join ''\<newline>\<newline>''
       (map (\<lambda>i. ''Info '' @ string_of_nat (i + 1) @ '':\<newline>'' @ rs ! i) [0..<length rs])"
    by (simp add: Reporter_results_def map_indexed_conv)
  show "sublist q (content (last (Reporter_prompt t q rs)))"
    by (simp add: Reporter_prompt_def)
  show "Reporter_run e q rs =
     (case reporter_chain e (Reporter_prompt (texts e) q rs) of
        Inl m \<Rightarrow> Inl (External m) | Inr report \<Rightarrow> Inr report)"
    by (simp add: Reporter_run_def)
  fix i assume i: "i < length rs"
  let ?block = "\<lambda>i. ''Info '' @ string_of_nat (i + 1) @ '':\<newline>'' @ rs ! i"
  from i have "?block i \<in> set (map ?block [0..<length rs])" by (simp del: append.simps)
  then have "sublist (?block i) (Reporter_results rs)"
    unfolding conv by (rule sublist_join)
  then have "sublist (?block i)
      (reporter_before_query t @ q @ reporter_before_results t @ Reporter_results rs)"
    by (intro sublist_behind)
  then show "sublist (?block i) (content (last (Reporter_prompt t q rs)))"
    by (simp add: Reporter_prompt_def)
qed

theorem Reporter_prompt_labels_witness:
  "(1::nat) < length [''Result-X'', ''Result-Y''] \<and>
   sublist (''Info 2:\<newline>Result-Y'')
     (content (last (Reporter_prompt stub_texts ''Compare X and Y'' [''Result-X'', ''Result-Y'']))) \<and>
   content (last (Reporter_prompt stub_texts ''Compare X and Y'' [''Result-X'', ''Result-Y''])) =
     ''Request: Compare X and Y Collected: Info 1:\<newline>Result-X\<newline>\<newline>Info 2:\<newline>Result-Y''"
proof -
  have 1: "(1::nat) < length [''Result-X'', ''Result-Y'']" by simp
  have 2: "string_of_nat (Suc (Suc 0)) = ''2''" by (simp add: string_of_nat.simps)
  have 3: "content (last (Reporter_prompt stub_texts ''Compare X and Y'' [''Result-X'', ''Result-Y''])) =
     ''Request: Compare X and Y Collected: Info 1:\<newline>Result-X\<newline>\<newline>Info 2:\<newline>Result-Y''"
    by (simp add: Reporter_prompt_def Reporter_results_def map_indexed_def enumerate_eq_zip
        string_of_nat.simps stub_texts_def)
  from Reporter_prompt_labels[of stub_texts "''Compare X and Y''" "[''Result-X'', ''Result-Y'']"]
  have "\<forall>i<length [''Result-X'', ''Result-Y''].
      sublist (''Info '' @ string_of_nat (i + 1) @ '':\<newline>'' @ [''Result-X'', ''Result-Y''] ! i)
        (content (last (Reporter_prompt stub_texts ''Compare X and Y'' [''Result-X'', ''Result-Y''])))"
    by blast
  from this[rule_format, OF 1] 2 have "sublist (''Info 2:\<newline>Result-Y'')
     (content (last (Reporter_prompt stub_texts ''Compare X and Y'' [''Result-X'', ''Result-Y''])))"
    by simp
  with 1 3 show ?thesis by simp
qed

subsection \<open>Partial updates\<close>

text \<open>
  Claim C9. Merging a node's update leaves every field the update does not carry as it
  was. The planner and the role assigner change only \<open>tasks\<close>, the executor only
  \<open>results\<close> and \<open>currentTaskIndex\<close>, the reporter only \<open>finalReport\<close>.
\<close>

theorem node_update_frame:
  "(\<forall>u. planTasks e s = Inr u \<longrightarrow> (\<exists>ts. merge_update s u = s\<lparr>tasks := ts\<rparr>)) \<and>
   (\<forall>u. assignRoles e s = Inr u \<longrightarrow> (\<exists>ts. merge_update s u = s\<lparr>tasks := ts\<rparr>)) \<and>
   (\<forall>u. executeTask e now s = Inr u \<longrightarrow>
      (\<exists>rs i. merge_update s u = s\<lparr>results := rs, currentTaskIndex := i\<rparr>)) \<and>
   (\<forall>u. generateReport e s = Inr u \<longrightarrow> (\<exists>r. merge_update s u = s\<lparr>finalReport := r\<rparr>)) \<and>
   (upd_query v = None \<longrightarrow> query (merge_update s v) = query s) \<and>
   (upd_tasks v = None \<longrightarrow> tasks (merge_update s v) = tasks s) \<and>
   (upd_currentTaskIndex v = None \<longrightarrow>
      currentTaskIndex (merge_update s v) = currentTaskIndex s) \<and>
   (upd_results v = None \<longrightarrow> results (merge_update s v) = results s) \<and>
   (upd_finalReport v = None \<longrightarrow> finalReport (merge_update s v) = finalReport s)"
proof -
  have "\<exists>rs i. merge_update s u = s\<lparr>results := rs, currentTaskIndex := i\<rparr>"
    if "executeTask e now s = Inr u" for u
    using merge_executeTask[OF that] by blast
  then show ?thesis
    using merge_planTasks[of e s] merge_assignRoles[of e s] merge_generateReport[of e s]
    by (simp add: merge_update_def)
qed

theorem node_update_frame_witness:
  "planTasks stub_env (stub_state 0 []) = Inr (no_update\<lparr>upd_tasks := Some (map (\<lambda>d. \<lparr>description = d, role = None\<rparr>) [''Research X'', ''Research Y''])\<rparr>) \<and>
   assignRoles stub_env (stub_state 0 []) = Inr (no_update\<lparr>upd_tasks := Some stub_tasks\<rparr>) \<and>
   executeTask stub_env 2 (stub_state 0 []) =
     Inr (no_update\<lparr>upd_results := Some [''Result-X''], upd_currentTaskIndex := Some 1\<rparr>) \<and>
   generateReport stub_env (stub_state 0 []) =
     Inr (no_update\<lparr>upd_finalReport := Some ''Request: Compare X and Y Collected: ''\<rparr>) \<and>
   upd_query no_update = None \<and> upd_tasks no_update = None \<and>
   upd_currentTaskIndex no_update = None \<and> upd_results no_update = None \<and>
   upd_finalReport no_update = None \<and>
   merge_update (stub_state 0 []) no_update = stub_state 0 [] \<and>
   (\<exists>rs i. merge_update (stub_state 0 [])
        (no_update\<lparr>upd_results := Some [''Result-X''], upd_currentTaskIndex := Some 1\<rparr>) =
      (stub_state 0 [])\<lparr>results := rs, currentTaskIndex := i\<rparr>)"
proof -
  have 1: "executeTask stub_env 2 (stub_state 0 []) =
     Inr (no_update\<lparr>upd_results := Some [''Result-X''], upd_currentTaskIndex := Some 1\<rparr>)"
    by (simp add: stub_defs run_defs)
  have 2: "planTasks stub_env (stub_state 0 []) = Inr (no_update\<lparr>upd_tasks := Some (map (\<lambda>d. \<lparr>description = d, role = None\<rparr>) [''Research X'', ''Research Y''])\<rparr>)"
    by (simp add: stub_defs run_defs)
  have 3: "assignRoles stub_env (stub_state 0 []) = Inr (no_update\<lparr>upd_tasks := Some stub_tasks\<rparr>)"
    by (simp add: stub_defs run_defs)
  have 4: "generateReport stub_env (stub_state 0 []) =
     Inr (no_update\<lparr>upd_finalReport := Some ''Request: Compare X and Y Collected: ''\<rparr>)"
    by (simp add: stub_defs run_defs Reporter_prompt_def Reporter_results_def map_indexed_def)
  have 5: "merge_update (stub_state 0 []) no_update = stub_state 0 []"
    by (simp add: stub_defs run_defs)
  from node_update_frame[of stub_env "stub_state 0 []" 2 no_update] 1
  have "\<exists>rs i. merge_update (stub_state 0 [])
        (no_update\<lparr>upd_results := Some [''Result-X''], upd_currentTaskIndex := Some 1\<rparr>) =
      (stub_state 0 [])\<lparr>results := rs, currentTaskIndex := i\<rparr>"
    by blast
  with 1 2 3 4 5 show ?thesis by (simp add: no_update_def)
qed

subsection \<open>End to end\<close>

text \<open>
  The scenario of the specification: two tasks, two roles, two results, and a report
  that holds the query and both results.
\<close>

lemma stub_run_end_to_end:
  "run stub_env ''Compare X and Y'' =
     Inr ''Request: Compare X and Y Collected: Info 1:\<newline>Result-X\<newline>\<newline>Info 2:\<newline>Result-Y''"
  by (simp add: run_def graph_invoke_def pregel_loop.simps eval_nat_numeral stub_defs run_defs
      Reporter_prompt_def Reporter_results_def map_indexed_def enumerate_eq_zip
      string_of_nat.simps)

end
